theory Spec2Isabelle
  imports Main "HOL-Library.AList"
begin

section \<open>mailit: recipients, the mail composer, batching and the CSV reader\<close>

text \<open>
  A shallow embedding of \<^verbatim>\<open>mailit/__init__.py\<close>. Python strings are modelled as
  \<open>string\<close>; the case conversions below are the ASCII part of \<^verbatim>\<open>str.upper\<close>,
  \<^verbatim>\<open>str.lower\<close> and \<^verbatim>\<open>str.title\<close> (every other character is left as it is).
  Exceptions are values of the type \<open>error\<close>.
\<close>

subsection \<open>Exceptions\<close>

datatype error =
    ValueError
  | KeyError
  | TypeError
  | AttributeError
  | RuntimeError
  | CouldNotGuessEmailField
  | TransportError

subsection \<open>Case conversion of strings\<close>

definition is_lower :: "char \<Rightarrow> bool" where
  "is_lower c = (97 \<le> (of_char c :: nat) \<and> (of_char c :: nat) \<le> 122)"

definition is_upper :: "char \<Rightarrow> bool" where
  "is_upper c = (65 \<le> (of_char c :: nat) \<and> (of_char c :: nat) \<le> 90)"

definition is_cased :: "char \<Rightarrow> bool" where
  "is_cased c = (is_lower c \<or> is_upper c)"

definition upper_char :: "char \<Rightarrow> char" where
  "upper_char c = (if is_lower c then char_of ((of_char c :: nat) - 32) else c)"

definition lower_char :: "char \<Rightarrow> char" where
  "lower_char c = (if is_upper c then char_of ((of_char c :: nat) + 32) else c)"

text \<open>\<^verbatim>\<open>str.upper()\<close>\<close>

definition upper :: "string \<Rightarrow> string" where
  "upper s = map upper_char s"

text \<open>
  \<^verbatim>\<open>str.title()\<close>: a character that follows a cased character is lowercased, any other
  character is uppercased.
\<close>

fun title_from :: "bool \<Rightarrow> string \<Rightarrow> string" where
  "title_from previous_is_cased [] = []"
| "title_from previous_is_cased (c # cs) =
     (if previous_is_cased then lower_char c else upper_char c) # title_from (is_cased c) cs"

definition title :: "string \<Rightarrow> string" where
  "title s = title_from False s"

subsection \<open>Recipient\<close>

text \<open>
  Keyword arguments are an association list in the order of the call, with distinct keys
  (a Python \<^verbatim>\<open>dict\<close>). \<^verbatim>\<open>kwargs.get(k)\<close> is \<open>map_of kwargs k\<close>, with \<open>None\<close> for Python's
  \<^verbatim>\<open>None\<close>. The values are strings, as the CSV reader produces them.
\<close>

type_synonym kwargs = "(string \<times> string) list"

record recipient =
  email :: string
  first_name :: "string option"
  last_name :: "string option"
  name :: string
  merge_vars :: "(string \<times> string) list"

text \<open>Truthiness of the result of \<^verbatim>\<open>kwargs.get(k)\<close>: \<^verbatim>\<open>None\<close> and \<^verbatim>\<open>''\<close> are false.\<close>

fun truthy :: "string option \<Rightarrow> bool" where
  "truthy None = False"
| "truthy (Some s) = (s \<noteq> [])"

text \<open>The value of a string option that is known to be truthy, as \<^verbatim>\<open>%s\<close> formats it.\<close>

fun str_of :: "string option \<Rightarrow> string" where
  "str_of None = ''None''"
| "str_of (Some s) = s"

text \<open>The local function \<^verbatim>\<open>name()\<close> of \<^verbatim>\<open>Recipient.__init__\<close>.\<close>

definition name_fn :: "kwargs \<Rightarrow> string" where
  "name_fn kwargs =
     (if truthy (map_of kwargs ''first_name'') \<and> truthy (map_of kwargs ''last_name'')
      then str_of (map_of kwargs ''first_name'') @ '' '' @ str_of (map_of kwargs ''last_name'')
      else if truthy (map_of kwargs ''first_name'')
      then str_of (map_of kwargs ''first_name'')
      else '''')"

text \<open>\<^verbatim>\<open>Recipient.__init__(self, email, **kwargs)\<close>\<close>

definition Recipient :: "string \<Rightarrow> kwargs \<Rightarrow> recipient" where
  "Recipient email_arg kwargs =
     \<lparr> email = email_arg,
       first_name = map_of kwargs ''first_name'',
       last_name = map_of kwargs ''last_name'',
       name = title (case map_of kwargs ''name'' of Some v \<Rightarrow> v | None \<Rightarrow> name_fn kwargs),
       merge_vars = map (\<lambda>(key, v). (upper key, v)) kwargs \<rparr>"

text \<open>
  The display name as the specification words it: the explicit name if one is supplied;
  otherwise first and last name joined by a space if both parts are present; otherwise the
  first name alone; otherwise the empty string. A part is present when it is supplied and
  is not the empty string.
\<close>

definition present_part :: "kwargs \<Rightarrow> string \<Rightarrow> string option" where
  "present_part kwargs k =
     (case map_of kwargs k of None \<Rightarrow> None | Some v \<Rightarrow> if v = [] then None else Some v)"

definition spec_display_name :: "kwargs \<Rightarrow> string" where
  "spec_display_name kwargs =
     (case map_of kwargs ''name'' of
        Some explicit \<Rightarrow> explicit
      | None \<Rightarrow>
          (case present_part kwargs ''first_name'' of
             None \<Rightarrow> ''''
           | Some f \<Rightarrow>
               (case present_part kwargs ''last_name'' of
                  None \<Rightarrow> f
                | Some l \<Rightarrow> f @ '' '' @ l)))"

subsection \<open>Mail: the composer's state and its merge variables and images\<close>

record image_entry =
  image_content :: string
  image_type :: "string option"
  image_name :: string

text \<open>
  The attributes \<^verbatim>\<open>_template\<close>, \<^verbatim>\<open>_images\<close>, \<^verbatim>\<open>_merge_vars\<close>, \<^verbatim>\<open>_subject\<close>,
  \<^verbatim>\<open>_from_email\<close> and \<^verbatim>\<open>_from_name\<close> of a \<^verbatim>\<open>Mail\<close> object. The dictionary of images
  keeps its insertion order; a merge variable \<^verbatim>\<open>{"name": n, "content": c}\<close> is the pair
  \<open>(n, c)\<close>. The client and the logger are external and are no part of the state.
\<close>

record mail =
  template :: "string option"
  images :: "(string \<times> image_entry) list"
  global_merge_vars :: "(string \<times> string) list"
  subject :: string
  from_email :: string
  from_name :: string

text \<open>\<^verbatim>\<open>Mail.clear\<close>\<close>

definition clear :: mail where
  "clear = \<lparr> template = None, images = [], global_merge_vars = [],
             subject = '''', from_email = '''', from_name = '''' \<rparr>"

text \<open>
  \<^verbatim>\<open>Mail.__init__\<close>: the template setter reads a string or a file-like object; without the
  keyword \<^verbatim>\<open>template\<close> it calls \<^verbatim>\<open>None.read()\<close>.
\<close>

definition Mail :: "string \<Rightarrow> string \<Rightarrow> string \<Rightarrow> string option \<Rightarrow> error + mail" where
  "Mail subject_arg from_name_arg from_email_arg template_kw =
     (case template_kw of
        None \<Rightarrow> Inl AttributeError
      | Some t \<Rightarrow>
          Inr (clear\<lparr> template := Some t, subject := subject_arg,
                      from_email := from_email_arg, from_name := from_name_arg \<rparr>))"

text \<open>\<^verbatim>\<open>Mail.add_global_merge_var\<close>\<close>

definition add_global_merge_var :: "mail \<Rightarrow> string \<Rightarrow> string \<Rightarrow> mail" where
  "add_global_merge_var self n c =
     self\<lparr> global_merge_vars := global_merge_vars self @ [(upper n, c)] \<rparr>"

text \<open>
  \<^verbatim>\<open>first_true(iterable, pred=pred)\<close> is \<^verbatim>\<open>next(filter(pred, iterable), False)\<close>: the first
  item that satisfies the predicate, or Python's \<^verbatim>\<open>False\<close>.
\<close>

datatype 'a or_false = PyFalse | Item 'a

definition first_true :: "'a list \<Rightarrow> ('a \<Rightarrow> bool) \<Rightarrow> 'a or_false" where
  "first_true iterable pred =
     (case filter pred iterable of [] \<Rightarrow> PyFalse | x # _ \<Rightarrow> Item x)"

text \<open>
  \<^verbatim>\<open>list.remove(x)\<close> deletes the first element equal to \<^verbatim>\<open>x\<close> and raises \<^verbatim>\<open>ValueError\<close>
  when there is none. No dictionary is equal to \<^verbatim>\<open>False\<close>.
\<close>

fun list_remove :: "'a list \<Rightarrow> 'a or_false \<Rightarrow> error + 'a list" where
  "list_remove xs PyFalse = Inl ValueError"
| "list_remove xs (Item x) = (if x \<in> set xs then Inr (remove1 x xs) else Inl ValueError)"

text \<open>
  The mutating methods return the exception, if one is raised, and the state that the
  object is left in.
\<close>

definition remove_global_merge_var :: "mail \<Rightarrow> string \<Rightarrow> error option \<times> mail" where
  "remove_global_merge_var self n =
     (let n' = upper n in
      case list_remove (global_merge_vars self)
             (first_true (global_merge_vars self) (\<lambda>x. fst x = n')) of
        Inl e \<Rightarrow> (Some e, self)
      | Inr vs \<Rightarrow> (None, self\<lparr> global_merge_vars := vs \<rparr>))"

text \<open>\<^verbatim>\<open>Mail.remove_image\<close>: \<^verbatim>\<open>del self._images[filename]\<close>\<close>

definition remove_image :: "mail \<Rightarrow> string \<Rightarrow> error option \<times> mail" where
  "remove_image self filename =
     (case map_of (images self) filename of
        None \<Rightarrow> (Some KeyError, self)
      | Some _ \<Rightarrow> (None, self\<lparr> images := AList.delete filename (images self) \<rparr>))"

subsection \<open>Mail.send: the grouper\<close>

text \<open>
  \<^verbatim>\<open>grouper\<close> passes \<open>n\<close> references to one iterator to \<^verbatim>\<open>itertools.zip_longest\<close>. The
  state of \<^verbatim>\<open>zip_longest\<close> is the shared iterator (the items not yet consumed), the counter
  \<^verbatim>\<open>num_active\<close>, and for each position whether it still holds the shared iterator
  (\<open>True\<close>) or has been replaced by \<^verbatim>\<open>repeat(fillvalue)\<close> (\<open>False\<close>). The fill value
  \<^verbatim>\<open>None\<close> is \<open>None\<close>, a recipient \<open>r\<close> is \<open>Some r\<close>.

  One pass over the positions builds one tuple. The result \<open>None\<close> is the \<^verbatim>\<open>return\<close> taken
  when \<^verbatim>\<open>num_active\<close> reaches zero.
\<close>

fun zip_longest_round ::
  "'a list \<Rightarrow> int \<Rightarrow> bool list \<Rightarrow> ('a option list \<times> 'a list \<times> int \<times> bool list) option"
where
  "zip_longest_round it num_active [] = Some ([], it, num_active, [])"
| "zip_longest_round it num_active (shared # iterators) =
     (if shared then
        (case it of
           x # it' \<Rightarrow>
             map_option (\<lambda>(vs, it'', na, its). (Some x # vs, it'', na, True # its))
               (zip_longest_round it' num_active iterators)
         | [] \<Rightarrow>
             if num_active - 1 = 0 then None
             else
               map_option (\<lambda>(vs, it'', na, its). (None # vs, it'', na, False # its))
                 (zip_longest_round [] (num_active - 1) iterators))
      else
        map_option (\<lambda>(vs, it'', na, its). (None # vs, it'', na, False # its))
          (zip_longest_round it num_active iterators))"

text \<open>The \<^verbatim>\<open>while True\<close> loop: \<open>None\<close> stands for a loop that never ends.\<close>

partial_function (option) zip_longest_loop ::
  "'a list \<Rightarrow> int \<Rightarrow> bool list \<Rightarrow> 'a option list list option"
where
  "zip_longest_loop it num_active iterators =
     (case zip_longest_round it num_active iterators of
        None \<Rightarrow> Some []
      | Some (vs, it', na, its) \<Rightarrow>
          Option.bind (zip_longest_loop it' na its) (\<lambda>batches. Some (vs # batches)))"

declare zip_longest_loop.simps [code]

definition zip_longest :: "'a list \<Rightarrow> nat \<Rightarrow> 'a option list list option" where
  "zip_longest it k =
     (let iterators = replicate k True; num_active = int (length iterators)
      in if num_active = 0 then Some [] else zip_longest_loop it num_active iterators)"

text \<open>
  \<^verbatim>\<open>grouper(iterable, n)\<close>: the list \<^verbatim>\<open>[iter(iterable)] * n\<close> is empty when \<open>n \<le> 0\<close>.
\<close>

definition grouper :: "'a list \<Rightarrow> int \<Rightarrow> 'a option list list option" where
  "grouper iterable n = zip_longest iterable (nat n)"

text \<open>
  The batches as the specification describes them: consecutive slices of \<open>n\<close> items, the
  last one padded with the sentinel to \<open>n\<close> slots. Used to state what the loop computes.
\<close>

definition pad :: "nat \<Rightarrow> 'a list \<Rightarrow> 'a option list" where
  "pad n xs = map Some xs @ replicate (n - length xs) None"

function spec_batches :: "nat \<Rightarrow> 'a list \<Rightarrow> 'a option list list" where
  "spec_batches n xs =
     (if n = 0 \<or> xs = [] then [] else pad n (take n xs) # spec_batches n (drop n xs))"
  by pat_completeness auto
termination
  by (relation "measure (\<lambda>(n, xs). length xs)") auto

declare spec_batches.simps [simp del]

subsection \<open>Mail.send: the payload and the loop over the batches\<close>

record to_entry =
  to_name :: string
  to_email :: string
  to_type :: string

record rcpt_vars =
  rcpt :: string
  vars :: "(string \<times> string) list"

text \<open>
  The message. The entries \<^verbatim>\<open>headers\<close>, \<^verbatim>\<open>recipient_metadata\<close> and \<^verbatim>\<open>tags\<close> (empty) and
  \<^verbatim>\<open>auto_html\<close>, \<^verbatim>\<open>auto_text\<close>, \<^verbatim>\<open>inline_css\<close> and \<^verbatim>\<open>url_strip_qs\<close> (\<^verbatim>\<open>None\<close>) are constant
  and are left out.
\<close>

record message =
  msg_from_email :: string
  msg_from_name :: string
  msg_to :: "to_entry list"
  msg_preserve_recipients :: bool
  msg_subject :: string
  msg_important :: bool
  msg_merge :: bool
  msg_merge_language :: string
  msg_global_merge_vars :: "(string \<times> string) list"
  msg_merge_vars :: "rcpt_vars list"
  msg_html :: "string option"
  msg_images :: "image_entry list"

text \<open>\<^verbatim>\<open>for recipient in batch if recipient is not None\<close>\<close>

definition real_recipients :: "'a option list \<Rightarrow> 'a list" where
  "real_recipients batch = map the (filter (\<lambda>r. r \<noteq> None) batch)"

text \<open>
  \<^verbatim>\<open>to, merge_vars = zip(*(...))\<close>: with no real recipient \<^verbatim>\<open>zip()\<close> is empty and the
  unpacking raises \<^verbatim>\<open>ValueError\<close>.
\<close>

definition compose_batch :: "recipient option list \<Rightarrow> error + (to_entry list \<times> rcpt_vars list)" where
  "compose_batch batch =
     (let pairs =
            map (\<lambda>r. (\<lparr> to_name = name r, to_email = email r, to_type = ''to'' \<rparr>,
                      \<lparr> rcpt = email r, vars = merge_vars r \<rparr>))
              (real_recipients batch)
      in if pairs = [] then Inl ValueError else Inr (map fst pairs, map snd pairs))"

definition build_message :: "mail \<Rightarrow> to_entry list \<Rightarrow> rcpt_vars list \<Rightarrow> message" where
  "build_message self to mvs =
     \<lparr> msg_from_email = from_email self,
       msg_from_name = from_name self,
       msg_to = to,
       msg_preserve_recipients = False,
       msg_subject = subject self,
       msg_important = False,
       msg_merge = True,
       msg_merge_language = ''mailchimp'',
       msg_global_merge_vars = global_merge_vars self,
       msg_merge_vars = mvs,
       msg_html = template self,
       msg_images = map snd (images self) \<rparr>"

text \<open>
  The body of \<^verbatim>\<open>for batch in grouper(recipients, batch_size)\<close>. The client
  (\<^verbatim>\<open>self._client.messages.send\<close>) is external: a function that returns a response or
  raises. The loop carries the object, the list \<^verbatim>\<open>result\<close> and the messages handed to the
  client so far; it returns the result or the exception, the object and those messages.
\<close>

fun send_loop ::
  "mail \<Rightarrow> (message \<Rightarrow> error + 'r) \<Rightarrow> bool \<Rightarrow> recipient option list list \<Rightarrow> 'r list \<Rightarrow>
   message list \<Rightarrow> (error + 'r list) \<times> mail \<times> message list"
where
  "send_loop self client dry_run [] result sent = (Inr result, self, sent)"
| "send_loop self client dry_run (batch # batches) result sent =
     (case compose_batch batch of
        Inl e \<Rightarrow> (Inl e, self, sent)
      | Inr (to, mvs) \<Rightarrow>
          (let msg = build_message self to mvs in
           if \<not> dry_run then
             (case client msg of
                Inl e \<Rightarrow> (Inl e, self, sent @ [msg])
              | Inr response \<Rightarrow>
                  send_loop self client dry_run batches (result @ [response]) (sent @ [msg]))
           else send_loop self client dry_run batches result sent))"

text \<open>\<^verbatim>\<open>Mail.send(recipients, batch_size, dry_run)\<close> on a finite sequence of recipients.\<close>

definition send ::
  "mail \<Rightarrow> (message \<Rightarrow> error + 'r) \<Rightarrow> recipient list \<Rightarrow> int \<Rightarrow> bool \<Rightarrow>
   ((error + 'r list) \<times> mail \<times> message list) option"
where
  "send self client recipients batch_size dry_run =
     map_option (\<lambda>batches. send_loop self client dry_run batches [] [])
       (grouper recipients batch_size)"

subsection \<open>Regular expressions: \<^verbatim>\<open>re.match\<close>\<close>

text \<open>
  The fragment of Python's regular expressions that the email pattern uses: a literal
  character, a negated one-character class \<^verbatim>\<open>[^c]\<close>, concatenation and \<^verbatim>\<open>+\<close>; the other
  constructors are what the derivatives of these need.
\<close>

datatype regex =
    Nothing
  | Empty
  | Lit char
  | NotLit char
  | Either regex regex
  | Then regex regex
  | Many regex
  | Many1 regex

fun nullable :: "regex \<Rightarrow> bool" where
  "nullable Nothing = False"
| "nullable Empty = True"
| "nullable (Lit c) = False"
| "nullable (NotLit c) = False"
| "nullable (Either r s) = (nullable r \<or> nullable s)"
| "nullable (Then r s) = (nullable r \<and> nullable s)"
| "nullable (Many r) = True"
| "nullable (Many1 r) = nullable r"

text \<open>What is left of a regular expression after it has read the character \<open>a\<close>.\<close>

fun deriv :: "char \<Rightarrow> regex \<Rightarrow> regex" where
  "deriv a Nothing = Nothing"
| "deriv a Empty = Nothing"
| "deriv a (Lit c) = (if a = c then Empty else Nothing)"
| "deriv a (NotLit c) = (if a = c then Nothing else Empty)"
| "deriv a (Either r s) = Either (deriv a r) (deriv a s)"
| "deriv a (Then r s) =
     (if nullable r then Either (Then (deriv a r) s) (deriv a s) else Then (deriv a r) s)"
| "deriv a (Many r) = Then (deriv a r) (Many r)"
| "deriv a (Many1 r) = Then (deriv a r) (Many r)"

text \<open>
  \<^verbatim>\<open>re.match(pattern, string)\<close> is not \<^verbatim>\<open>None\<close>: the pattern matches at the beginning of the
  string, that is, some prefix of the string.
\<close>

fun re_match :: "regex \<Rightarrow> string \<Rightarrow> bool" where
  "re_match r [] = nullable r"
| "re_match r (a # s) = (nullable r \<or> re_match (deriv a r) s)"

text \<open>
  \<^verbatim>\<open>re.search(pattern, string)\<close> is not \<^verbatim>\<open>None\<close>: the pattern matches somewhere in the
  string, that is, some substring. The source does not call it; it is how the
  specification reads the detection of the email field.
\<close>

fun re_search :: "regex \<Rightarrow> string \<Rightarrow> bool" where
  "re_search r [] = re_match r []"
| "re_search r (a # s) = (re_match r (a # s) \<or> re_search r s)"

text \<open>The pattern \<^verbatim>\<open>[^@]+@[^@]+\.[^@]+\<close>\<close>

definition email_pattern :: regex where
  "email_pattern =
     Then (Many1 (NotLit CHR ''@''))
       (Then (Lit CHR ''@'')
          (Then (Many1 (NotLit CHR ''@''))
             (Then (Lit CHR ''.'') (Many1 (NotLit CHR ''@'')))))"

text \<open>
  The strings that a regular expression matches in full, to state what the two matching
  functions decide.
\<close>

definition conc :: "string set \<Rightarrow> string set \<Rightarrow> string set" where
  "conc A B = {u @ v | u v. u \<in> A \<and> v \<in> B}"

inductive_set star :: "string set \<Rightarrow> string set" for A :: "string set" where
  star_empty: "[] \<in> star A"
| star_more: "u \<in> A \<Longrightarrow> v \<in> star A \<Longrightarrow> u @ v \<in> star A"

fun lang :: "regex \<Rightarrow> string set" where
  "lang Nothing = {}"
| "lang Empty = {[]}"
| "lang (Lit c) = {[c]}"
| "lang (NotLit c) = {[a] | a. a \<noteq> c}"
| "lang (Either r s) = lang r \<union> lang s"
| "lang (Then r s) = conc (lang r) (lang s)"
| "lang (Many r) = star (lang r)"
| "lang (Many1 r) = conc (lang r) (star (lang r))"

subsection \<open>csvfile_to_recipients\<close>

text \<open>
  The model starts where the row type exists: \<open>field_names\<close> is \<^verbatim>\<open>Row._fields\<close>, the names that
  \<^verbatim>\<open>namedtuple\<close> accepted (so they are distinct), and the reader is the list of the rows
  that \<^verbatim>\<open>csv.reader\<close> yields, each a list of strings. An instance of the row type is the
  list of its fields with their values.
\<close>

type_synonym row = "(string \<times> string) list"

text \<open>\<^verbatim>\<open>Row(*values)\<close> and \<^verbatim>\<open>Row._make(values)\<close> raise unless every field gets a value.\<close>

definition Row_make :: "string list \<Rightarrow> string list \<Rightarrow> error + row" where
  "Row_make field_names vals =
     (if length vals = length field_names then Inr (zip field_names vals) else Inl TypeError)"

text \<open>
  \<^verbatim>\<open>getattr(data, field)\<close>: the value of a field, \<^verbatim>\<open>AttributeError\<close> for a name that the row
  does not have. The names of the attributes that every tuple has (\<^verbatim>\<open>count\<close>, \<^verbatim>\<open>index\<close>,
  \<^verbatim>\<open>_fields\<close> and so on) are outside the model unless they are fields.
\<close>

definition getattr :: "row \<Rightarrow> string \<Rightarrow> error + string" where
  "getattr data field =
     (case map_of data field of None \<Rightarrow> Inl AttributeError | Some v \<Rightarrow> Inr v)"

text \<open>
  The loop over \<^verbatim>\<open>Row._fields\<close> that selects the first field whose value looks like an
  email address, and the exception raised when it selects none.
\<close>

fun guess_email_field :: "row \<Rightarrow> string list \<Rightarrow> error + string" where
  "guess_email_field data [] = Inl CouldNotGuessEmailField"
| "guess_email_field data (field # field_names) =
     (case getattr data field of
        Inl e \<Rightarrow> Inl e
      | Inr v \<Rightarrow>
          if re_match email_pattern v then Inr field else guess_email_field data field_names)"

text \<open>
  The call \<^verbatim>\<open>Recipient(**kwargs)\<close>: the key \<^verbatim>\<open>email\<close> binds the parameter \<^verbatim>\<open>email\<close>, a key
  \<^verbatim>\<open>self\<close> collides with the first parameter, and every other key goes to \<^verbatim>\<open>**kwargs\<close>.
\<close>

definition Recipient_call :: "kwargs \<Rightarrow> error + recipient" where
  "Recipient_call kw =
     (if map_of kw ''self'' \<noteq> None then Inl TypeError
      else
        case map_of kw ''email'' of
          None \<Rightarrow> Inl TypeError
        | Some e \<Rightarrow> Inr (Recipient e (AList.delete ''email'' kw)))"

text \<open>
  \<^verbatim>\<open>kwargs.update(data._asdict())\<close>, \<^verbatim>\<open>kwargs.update({"email": getattr(data, email_field)})\<close>
  and the construction of the recipient.
\<close>

definition row_to_recipient :: "row \<Rightarrow> string \<Rightarrow> error + recipient" where
  "row_to_recipient data email_field =
     (case getattr data email_field of
        Inl e \<Rightarrow> Inl e
      | Inr v \<Rightarrow> Recipient_call (AList.update ''email'' v data))"

text \<open>
  The generator is modelled by the recipients it yields, in order, and the exception that
  ends it, if one does.
\<close>

type_synonym generated = "recipient list \<times> error option"

definition yield :: "recipient \<Rightarrow> generated \<Rightarrow> generated" where
  "yield r rest = (r # fst rest, snd rest)"

text \<open>\<^verbatim>\<open>for data in map(Row._make, reader)\<close>\<close>

fun rows_to_recipients :: "string list \<Rightarrow> string \<Rightarrow> string list list \<Rightarrow> generated" where
  "rows_to_recipients field_names email_field [] = ([], None)"
| "rows_to_recipients field_names email_field (vals # reader) =
     (case Row_make field_names vals of
        Inl e \<Rightarrow> ([], Some e)
      | Inr data \<Rightarrow>
          (case row_to_recipient data email_field of
             Inl e \<Rightarrow> ([], Some e)
           | Inr r \<Rightarrow> yield r (rows_to_recipients field_names email_field reader)))"

text \<open>
  \<^verbatim>\<open>csvfile_to_recipients\<close> from the creation of the row type on. Without a data row
  \<^verbatim>\<open>next(reader)\<close> raises \<^verbatim>\<open>StopIteration\<close> inside the generator, a \<^verbatim>\<open>RuntimeError\<close>.
\<close>

definition csvfile_to_recipients ::
  "string list \<Rightarrow> string list list \<Rightarrow> string option \<Rightarrow> generated"
where
  "csvfile_to_recipients field_names reader email_field =
     (case email_field of
        Some ef \<Rightarrow> rows_to_recipients field_names ef reader
      | None \<Rightarrow>
          (case reader of
             [] \<Rightarrow> ([], Some RuntimeError)
           | vals # rest \<Rightarrow>
               (case Row_make field_names vals of
                  Inl e \<Rightarrow> ([], Some e)
                | Inr data \<Rightarrow>
                    (case guess_email_field data field_names of
                       Inl e \<Rightarrow> ([], Some e)
                     | Inr ef \<Rightarrow>
                         (case row_to_recipient data ef of
                            Inl e \<Rightarrow> ([], Some e)
                          | Inr r \<Rightarrow> yield r (rows_to_recipients field_names ef rest))))))"

text \<open>
  What a recipient has of the row it was made from: the value of the email field as its
  address, and a merge variable for every column other than \<^verbatim>\<open>email\<close>.
\<close>

definition carries :: "string list \<Rightarrow> string \<Rightarrow> string list \<Rightarrow> recipient \<Rightarrow> bool" where
  "carries fs ef vals r =
     (length vals = length fs \<and> map_of (zip fs vals) ef = Some (email r)
      \<and> (\<forall>i < length fs. fs ! i \<noteq> ''email'' \<longrightarrow> (upper (fs ! i), vals ! i) \<in> set (merge_vars r)))"

subsection \<open>Payload skeleton\<close>

text \<open>
  A message is the payload skeleton of an object when all its entries other than
  \<^verbatim>\<open>to\<close> and \<^verbatim>\<open>merge_vars\<close> are those that \<open>build_message\<close> takes from the object.
\<close>

definition skeleton_of :: "mail \<Rightarrow> message \<Rightarrow> bool" where
  "skeleton_of self m = (m = build_message self (msg_to m) (msg_merge_vars m))"

section \<open>Properties\<close>

subsection \<open>Display name\<close>

lemma truthy_present_part: "truthy (map_of kwargs k) = (present_part kwargs k \<noteq> None)"
  by (simp add: present_part_def split: option.splits)

lemma present_part_str_of:
  "present_part kwargs k = Some v \<Longrightarrow> str_of (map_of kwargs k) = v"
  by (auto simp: present_part_def split: option.splits if_splits)

lemma name_fn_spec:
  "map_of kwargs ''name'' = None \<Longrightarrow> name_fn kwargs = spec_display_name kwargs"
  by (auto simp: name_fn_def spec_display_name_def truthy_present_part
      dest: present_part_str_of split: option.splits)

text \<open>
  Claim C4. For every construction of a Recipient, the \<open>name\<close> field is the title-cased
  form of the explicit \<open>name\<close> argument if one is supplied, else of first and last name
  joined by one space if both are present, else of the first name alone if it is present,
  else of the empty string.
\<close>

theorem Recipient_name_derivation:
  "name (Recipient e kwargs) = title (spec_display_name kwargs)"
proof (cases "map_of kwargs ''name''")
  case None
  then show ?thesis
    by (simp add: Recipient_def name_fn_spec)
next
  case (Some v)
  then show ?thesis
    by (simp add: Recipient_def spec_display_name_def)
qed

text \<open>
  Claim C10. Without an explicit \<open>name\<close>, an empty \<open>first_name\<close> gives the empty name
  whatever \<open>last_name\<close> is, and a non-empty \<open>first_name\<close> with an empty \<open>last_name\<close> gives the
  title-cased \<open>first_name\<close> alone.
\<close>

theorem Recipient_empty_name_parts:
  assumes "map_of kwargs ''name'' = None"
  shows "(map_of kwargs ''first_name'' = Some '''' \<longrightarrow> name (Recipient e kwargs) = '''')
       \<and> (map_of kwargs ''first_name'' = Some f \<and> f \<noteq> '''' \<and> map_of kwargs ''last_name'' = Some ''''
            \<longrightarrow> name (Recipient e kwargs) = title f)"
  using assms by (simp add: Recipient_def name_fn_def title_def)

theorem Recipient_empty_name_parts_witness:
  "name (Recipient ''a@b.c'' [(''first_name'', ''''), (''last_name'', ''smith'')]) = ''''
   \<and> name (Recipient ''a@b.c'' [(''first_name'', ''jane''), (''last_name'', '''')]) = ''Jane''"
proof -
  have t: "title ''jane'' = ''Jane''"
    by code_simp
  show ?thesis
    using Recipient_empty_name_parts [of "[(''first_name'', ''''), (''last_name'', ''smith'')]" "''a@b.c''" "''x''"]
      Recipient_empty_name_parts [of "[(''first_name'', ''jane''), (''last_name'', '''')]" "''a@b.c''" "''jane''"]
    by (simp add: t)
qed


subsection \<open>The grouper\<close>

lemma round_taken:
  "k \<le> length it \<Longrightarrow>
   zip_longest_round it na (replicate k True) = Some (map Some (take k it), drop k it, na, replicate k True)"
proof (induction k arbitrary: it)
  case 0
  then show ?case by simp
next
  case (Suc k)
  then obtain x it' where it: "it = x # it'" by (cases it) auto
  with Suc.prems have "k \<le> length it'" by simp
  from Suc.IH [OF this] show ?case by (simp add: it)
qed

lemma round_fill:
  "int j < na \<Longrightarrow>
   zip_longest_round [] na (replicate j True) = Some (replicate j None, [], na - int j, replicate j False)"
proof (induction j arbitrary: na)
  case 0
  then show ?case by simp
next
  case (Suc j)
  then have "int j < na - 1" by simp
  from Suc.IH [OF this] Suc.prems show ?case by simp
qed

lemma round_short:
  "length it < k \<Longrightarrow> int (k - length it) < na \<Longrightarrow>
   zip_longest_round it na (replicate k True) =
     Some (pad k it, [], na - int (k - length it),
           replicate (length it) True @ replicate (k - length it) False)"
proof (induction it arbitrary: k)
  case Nil
  then show ?case by (simp add: round_fill pad_def)
next
  case (Cons x it)
  then obtain k' where k: "k = Suc k'" by (cases k) auto
  with Cons.prems have "length it < k'" "int (k' - length it) < na" by simp_all
  from Cons.IH [OF this] show ?case by (simp add: k pad_def)
qed

lemma round_stop:
  "0 < k \<Longrightarrow>
   zip_longest_round ([] :: 'a list) (int k) (replicate k True @ replicate j False) = None"
proof (induction k)
  case 0
  then show ?case by simp
next
  case (Suc k)
  show ?case
  proof (cases "k = 0")
    case True
    then show ?thesis by simp
  next
    case False
    with Suc.IH
    have "zip_longest_round ([] :: 'a list) (int k) (replicate k True @ replicate j False) = None"
      by simp
    with False show ?thesis by simp
  qed
qed

lemma loop_batches:
  fixes xs :: "'a list"
  shows "0 < n \<Longrightarrow> zip_longest_loop xs (int n) (replicate n True) = Some (spec_batches n xs)"
proof (induction xs rule: length_induct)
  case (1 xs)
  note n = \<open>0 < n\<close>
  show ?case
  proof (cases "xs = []")
    case True
    have "zip_longest_round ([] :: 'a list) (int n) (replicate n True) = None"
      using round_stop [OF n, where j = 0 and 'a = 'a] by simp
    moreover have "spec_batches n ([] :: 'a list) = []"
      by (simp add: spec_batches.simps)
    ultimately show ?thesis
      using True by (subst zip_longest_loop.simps) simp
  next
    case False
    then have unfold: "spec_batches n xs = pad n (take n xs) # spec_batches n (drop n xs)"
      using n by (subst spec_batches.simps) simp
    show ?thesis
    proof (cases "n \<le> length xs")
      case True
      from False n have "length (drop n xs) < length xs" by simp
      with 1 have rest: "zip_longest_loop (drop n xs) (int n) (replicate n True) =
          Some (spec_batches n (drop n xs))"
        by blast
      have step: "zip_longest_round xs (int n) (replicate n True) =
          Some (pad n (take n xs), drop n xs, int n, replicate n True)"
        using True by (simp add: round_taken pad_def)
      show ?thesis
        by (subst zip_longest_loop.simps) (simp add: step rest unfold)
    next
      case short: False
      with False have r: "0 < length xs" "length xs < n" by simp_all
      then have "int (n - length xs) < int n" by simp
      from round_short [OF r(2) this]
      have step: "zip_longest_round xs (int n) (replicate n True) =
          Some (pad n xs, [], int (length xs),
                replicate (length xs) True @ replicate (n - length xs) False)"
        using r by (simp add: of_nat_diff)
      have stop: "zip_longest_loop ([] :: 'a list) (int (length xs))
          (replicate (length xs) True @ replicate (n - length xs) False) = Some []"
        using round_stop [OF r(1), where j = "n - length xs" and 'a = 'a]
        by (subst zip_longest_loop.simps) simp
      have "spec_batches n (drop n xs) = []"
        using r by (simp add: spec_batches.simps)
      with unfold r have "spec_batches n xs = [pad n xs]" by simp
      then show ?thesis
        by (subst zip_longest_loop.simps) (simp add: step stop)
    qed
  qed
qed

lemma grouper_batches: "0 < n \<Longrightarrow> grouper xs n = Some (spec_batches (nat n) xs)"
  using loop_batches [of "nat n" xs] by (simp add: grouper_def zip_longest_def)

lemma grouper_nonpos: "n \<le> 0 \<Longrightarrow> grouper xs n = Some []"
  by (simp add: grouper_def zip_longest_def)


lemma length_pad: "length xs \<le> n \<Longrightarrow> length (pad n xs) = n"
  by (simp add: pad_def)

lemma real_pad: "real_recipients (pad n xs) = xs"
  by (simp add: pad_def real_recipients_def filter_map comp_def)

lemma batches_length_each: "b \<in> set (spec_batches n xs) \<Longrightarrow> length b = n"
  by (induction n xs rule: spec_batches.induct)
     (subst (asm) spec_batches.simps, auto simp: length_pad split: if_splits)

lemma batches_concat: "0 < n \<Longrightarrow> concat (map real_recipients (spec_batches n xs)) = xs"
  by (induction n xs rule: spec_batches.induct)
     (subst spec_batches.simps, auto simp: real_pad)

lemma batches_nonempty: "b \<in> set (spec_batches n xs) \<Longrightarrow> real_recipients b \<noteq> []"
  by (induction n xs rule: spec_batches.induct)
     (subst (asm) spec_batches.simps, auto simp: real_pad split: if_splits)

lemma ceil_step:
  fixes L n :: nat
  assumes "0 < n" "0 < L"
  shows "Suc ((L - n + n - 1) div n) = (L + n - 1) div n"
proof (cases "n \<le> L")
  case True
  with assms obtain m where m: "L = Suc m" by (cases L) auto
  have "(m + n) div n = Suc (m div n)"
    using div_add_self2 [of n m] assms(1) by simp
  with True m show ?thesis by simp
next
  case False
  with assms obtain m where m: "L = Suc m" "m < n" by (cases L) auto
  then have "(m + n) div n = Suc (m div n)"
    using div_add_self2 [of n m] assms(1) by simp
  with False m assms(1) show ?thesis by simp
qed

lemma batches_count: "0 < n \<Longrightarrow> length (spec_batches n xs) = (length xs + n - 1) div n"
proof (induction n xs rule: spec_batches.induct)
  case (1 n xs)
  show ?case
  proof (cases "xs = []")
    case True
    with 1(2) show ?thesis by (subst spec_batches.simps) simp
  next
    case False
    with 1 have "length (spec_batches n xs) = Suc ((length xs - n + n - 1) div n)"
      by (subst spec_batches.simps) simp
    also have "\<dots> = (length xs + n - 1) div n"
      using False 1(2) by (intro ceil_step) simp_all
    finally show ?thesis .
  qed
qed

lemma batches_shape:
  "b \<in> set (spec_batches n xs) \<Longrightarrow>
   b = map Some (real_recipients b) @ replicate (n - length (real_recipients b)) None"
proof (induction n xs rule: spec_batches.induct)
  case (1 n xs)
  from 1(2) have "n \<noteq> 0 \<and> xs \<noteq> [] \<and> (b = pad n (take n xs) \<or> b \<in> set (spec_batches n (drop n xs)))"
    by (subst (asm) spec_batches.simps) (auto split: if_splits)
  then show ?case
    using 1(1) by (auto simp: real_pad) (simp add: pad_def)
qed

lemma batches_butlast_full:
  "b \<in> set (butlast (spec_batches n xs)) \<Longrightarrow> length (real_recipients b) = n"
proof (induction n xs rule: spec_batches.induct)
  case (1 n xs)
  show ?case
  proof (cases "n = 0 \<or> xs = []")
    case True
    with 1(2) show ?thesis by (subst (asm) spec_batches.simps) simp
  next
    case False
    then have unfold: "spec_batches n xs = pad n (take n xs) # spec_batches n (drop n xs)"
      by (subst spec_batches.simps) simp
    show ?thesis
    proof (cases "drop n xs = []")
      case True
      then have "spec_batches n (drop n xs) = []" by (simp add: spec_batches.simps)
      with unfold 1(2) show ?thesis by simp
    next
      case more: False
      then have "spec_batches n (drop n xs) \<noteq> []"
        using False by (subst spec_batches.simps) simp
      with unfold 1(2) have "b = pad n (take n xs) \<or> b \<in> set (butlast (spec_batches n (drop n xs)))"
        by simp
      with 1(1) [OF False] more show ?thesis by (auto simp: real_pad)
    qed
  qed
qed

lemma batches_last_count:
  "0 < n \<Longrightarrow> xs \<noteq> [] \<Longrightarrow>
   length (real_recipients (last (spec_batches n xs))) =
     (if length xs mod n = 0 then n else length xs mod n)"
proof (induction n xs rule: spec_batches.induct)
  case (1 n xs)
  from 1(2,3) have unfold: "spec_batches n xs = pad n (take n xs) # spec_batches n (drop n xs)"
    by (subst spec_batches.simps) simp
  show ?case
  proof (cases "drop n xs = []")
    case True
    then have "spec_batches n (drop n xs) = []" by (simp add: spec_batches.simps)
    with unfold have "last (spec_batches n xs) = pad n xs" using True by simp
    then have real: "length (real_recipients (last (spec_batches n xs))) = length xs"
      by (simp add: real_pad)
    from True 1(3) have "length xs \<le> n" "0 < length xs" by simp_all
    then consider "length xs = n" | "length xs < n" "0 < length xs" by linarith
    then show ?thesis
    proof cases
      case 1
      with real show ?thesis by simp
    next
      case 2
      with real show ?thesis by simp
    qed
  next
    case more: False
    then have ne: "spec_batches n (drop n xs) \<noteq> []"
      using 1(2) by (subst spec_batches.simps) simp
    from more have le: "n \<le> length xs" by simp
    from 1(2,3) have "\<not> (n = 0 \<or> xs = [])" by simp
    from 1(1) [OF this 1(2) more]
    have "length (real_recipients (last (spec_batches n (drop n xs)))) =
        (if (length xs - n) mod n = 0 then n else (length xs - n) mod n)"
      by simp
    with le have "length (real_recipients (last (spec_batches n (drop n xs)))) =
        (if length xs mod n = 0 then n else length xs mod n)"
      by (simp add: le_mod_geq)
    with unfold ne show ?thesis by simp
  qed
qed

text \<open>
  Claim C1. For a finite sequence of \<open>L\<close> recipients and a batch size \<open>n > 0\<close> the grouper
  returns \<open>\<lceil>L / n\<rceil>\<close> batches (\<open>(L + n - 1) div n\<close>), each of exactly \<open>n\<close> slots with the
  sentinels after the real recipients; every batch but the last is full, the last batch
  holds \<open>L mod n\<close> real recipients (\<open>n\<close> when \<open>n\<close> divides \<open>L\<close>), and the real recipients of the
  batches, concatenated in batch order, are the input sequence.
\<close>

theorem grouper_batching:
  assumes "0 < n"
  shows "\<exists>bs. grouper xs n = Some bs
    \<and> length bs = (length xs + nat n - 1) div nat n
    \<and> (\<forall>b \<in> set bs. length b = nat n
          \<and> b = map Some (real_recipients b) @ replicate (nat n - length (real_recipients b)) None)
    \<and> (\<forall>b \<in> set (butlast bs). length (real_recipients b) = nat n)
    \<and> (bs \<noteq> [] \<longrightarrow>
          length (real_recipients (last bs)) =
            (if length xs mod nat n = 0 then nat n else length xs mod nat n))
    \<and> concat (map real_recipients bs) = xs"
proof -
  from assms have n: "0 < nat n" by simp
  have ne: "spec_batches (nat n) xs \<noteq> [] \<Longrightarrow> xs \<noteq> []"
    by (auto simp: spec_batches.simps)
  show ?thesis
    using grouper_batches [OF assms, of xs] batches_count [OF n, of xs]
      batches_concat [OF n, of xs] batches_last_count [OF n, of xs] ne
    by (auto simp: batches_length_each batches_butlast_full intro: batches_shape)
qed

theorem grouper_batching_witness:
  "grouper ''ABCDEFG'' 3 =
     Some [[Some CHR ''A'', Some CHR ''B'', Some CHR ''C''],
           [Some CHR ''D'', Some CHR ''E'', Some CHR ''F''],
           [Some CHR ''G'', None, None]]
   \<and> (\<exists>bs. grouper ''ABCDEFG'' 3 = Some bs \<and> length bs = 3
         \<and> length (real_recipients (last bs)) = 1
         \<and> concat (map real_recipients bs) = ''ABCDEFG'')"
proof -
  have ev: "grouper ''ABCDEFG'' 3 =
     Some [[Some CHR ''A'', Some CHR ''B'', Some CHR ''C''],
           [Some CHR ''D'', Some CHR ''E'', Some CHR ''F''],
           [Some CHR ''G'', None, None]]"
    by code_simp
  have "(0::int) < 3" by simp
  from grouper_batching [OF this, of "''ABCDEFG''"] ev show ?thesis
    by simp
qed

subsection \<open>Sending\<close>

lemma compose_batch_ok:
  "real_recipients b \<noteq> [] \<Longrightarrow> \<exists>to mvs. compose_batch b = Inr (to, mvs)"
  by (simp add: compose_batch_def Let_def)

lemma send_loop_dry:
  "\<forall>b \<in> set bs. real_recipients b \<noteq> [] \<Longrightarrow>
   send_loop self client True bs result sent = (Inr result, self, sent)"
proof (induction bs)
  case Nil
  then show ?case by simp
next
  case (Cons b bs)
  then obtain to mvs where "compose_batch b = Inr (to, mvs)"
    using compose_batch_ok [of b] by auto
  with Cons show ?case by simp
qed

lemma grouper_total: "\<exists>bs. grouper xs n = Some bs \<and> (\<forall>b \<in> set bs. real_recipients b \<noteq> [])"
proof (cases "0 < n")
  case True
  then show ?thesis
    using grouper_batches [OF True, of xs] by (auto dest: batches_nonempty)
next
  case False
  then show ?thesis by (simp add: grouper_nonpos)
qed

lemma skeleton_build: "skeleton_of self (build_message self to mvs)"
  by (simp add: skeleton_of_def build_message_def)

lemma send_loop_frame:
  "list_all (skeleton_of self) sent \<Longrightarrow>
   \<exists>res sent'. send_loop self client dry_run bs result sent = (res, self, sent')
      \<and> list_all (skeleton_of self) sent'"
proof (induction bs arbitrary: result sent)
  case Nil
  then show ?case by simp
next
  case (Cons b bs)
  show ?case
  proof (cases "compose_batch b")
    case (Inl e)
    with Cons.prems show ?thesis by simp
  next
    case (Inr p)
    obtain to mvs where p: "p = (to, mvs)" by (cases p)
    show ?thesis
    proof (cases dry_run)
      case True
      with Inr p Cons.IH [OF Cons.prems, of result] show ?thesis by simp
    next
      case False
      from Cons.prems
      have sent: "list_all (skeleton_of self) (sent @ [build_message self to mvs])"
        by (simp add: skeleton_build)
      show ?thesis
      proof (cases "client (build_message self to mvs)")
        case (Inl e)
        with Inr p False sent show ?thesis by simp
      next
        case r: (Inr response)
        with Inr p False Cons.IH [OF sent, of "result @ [response]"]
        show ?thesis by simp
      qed
    qed
  qed
qed

text \<open>
  Claim C5. For a finite sequence of recipients and a batch size \<open>n > 0\<close> the grouper
  returns, and no batch it returns consists of sentinels only: every batch holds a real
  recipient, so the step that builds \<open>to\<close> and \<open>merge_vars\<close> never raises on an empty batch.
\<close>

theorem grouper_no_empty_batch:
  assumes "0 < n"
  shows "\<exists>bs. grouper recipients n = Some bs
    \<and> (\<forall>b \<in> set bs. real_recipients b \<noteq> [] \<and> (\<exists>x. Some x \<in> set b)
          \<and> (\<exists>to mvs. compose_batch b = Inr (to, mvs)))"
proof -
  have "\<exists>x. Some x \<in> set b" if "real_recipients b \<noteq> []" for b :: "recipient option list"
  proof -
    from that obtain y where "y \<in> set b" "y \<noteq> None"
      by (auto simp: real_recipients_def filter_empty_conv)
    then show ?thesis by (cases y) auto
  qed
  then show ?thesis
    using grouper_batches [OF assms, of recipients]
    by (auto dest: batches_nonempty simp: compose_batch_ok)
qed

theorem grouper_no_empty_batch_witness:
  "grouper [Recipient ''a@b.c'' [], Recipient ''d@e.f'' [], Recipient ''g@h.i'' []] 2 =
     Some [[Some (Recipient ''a@b.c'' []), Some (Recipient ''d@e.f'' [])],
           [Some (Recipient ''g@h.i'' []), None]]
   \<and> compose_batch [Some (Recipient ''g@h.i'' []), None] =
       Inr ([\<lparr> to_name = [], to_email = ''g@h.i'', to_type = ''to'' \<rparr>],
            [\<lparr> rcpt = ''g@h.i'', vars = [] \<rparr>])"
proof -
  have ev: "grouper [Recipient ''a@b.c'' [], Recipient ''d@e.f'' [], Recipient ''g@h.i'' []] 2 =
     Some [[Some (Recipient ''a@b.c'' []), Some (Recipient ''d@e.f'' [])],
           [Some (Recipient ''g@h.i'' []), None]]"
    by code_simp
  have "(0::int) < 2" by simp
  from grouper_no_empty_batch [OF this,
      of "[Recipient ''a@b.c'' [], Recipient ''d@e.f'' [], Recipient ''g@h.i'' []]"] ev
  have "\<exists>to mvs. compose_batch [Some (Recipient ''g@h.i'' []), None] = Inr (to, mvs)"
    by simp
  then show ?thesis
    using ev by (auto simp: compose_batch_def real_recipients_def Recipient_def title_def name_fn_def)
qed


text \<open>
  Claim C6. Whatever the recipients and whatever the batch size (positive or not),
  \<open>send\<close> with \<open>dry_run\<close> set returns the empty result list and hands no message to the
  client; the object is unchanged.
\<close>

theorem send_dry_run:
  "send self client recipients batch_size True = Some (Inr [], self, [])"
proof -
  obtain bs where "grouper recipients batch_size = Some bs"
    "\<forall>b \<in> set bs. real_recipients b \<noteq> []"
    using grouper_total by blast
  then show ?thesis
    by (simp add: send_def send_loop_dry)
qed

text \<open>
  Claim C9. \<open>send\<close> returns the object in the state in which it received it, whether it
  returns a result or fails, for every sequence of recipients, batch size and \<open>dry_run\<close>
  flag; every message handed to the client is the payload built from that state.
\<close>

theorem send_frame:
  "\<exists>res sent. send self client recipients batch_size dry_run = Some (res, self, sent)
     \<and> list_all (skeleton_of self) sent"
proof -
  obtain bs where "grouper recipients batch_size = Some bs"
    using grouper_total by blast
  with send_loop_frame [of self "[]" client dry_run bs "[]"] show ?thesis
    by (auto simp: send_def)
qed

subsection \<open>Global merge variables and images\<close>

lemma upper_test: "upper ''test'' = ''TEST''"
  by code_simp

lemma upper_another_test: "upper ''another-test'' = ''ANOTHER-TEST''"
  by code_simp

lemma first_true_none:
  "\<forall>x \<in> set xs. \<not> pred x \<Longrightarrow> first_true xs pred = PyFalse"
  by (simp add: first_true_def filter_empty_conv [THEN iffD2] split: list.splits)

text \<open>
  Claim C7. From an object with no global merge variables, adding \<open>("test", "value")\<close> and
  then \<open>("another-test", "another-value")\<close> stores exactly two entries; removing
  \<open>"another-test"\<close> afterwards succeeds and leaves the single entry
  \<open>{"name": "TEST", "content": "value"}\<close>.
\<close>

theorem global_merge_var_round_trip:
  "global_merge_vars
     (add_global_merge_var
        (add_global_merge_var (self\<lparr> global_merge_vars := [] \<rparr>) ''test'' ''value'')
        ''another-test'' ''another-value'') =
     [(''TEST'', ''value''), (''ANOTHER-TEST'', ''another-value'')]
   \<and> remove_global_merge_var
       (add_global_merge_var
          (add_global_merge_var (self\<lparr> global_merge_vars := [] \<rparr>) ''test'' ''value'')
          ''another-test'' ''another-value'')
       ''another-test'' =
     (None, self\<lparr> global_merge_vars := [(''TEST'', ''value'')] \<rparr>)"
  by (simp add: add_global_merge_var_def remove_global_merge_var_def first_true_def
      upper_test upper_another_test)

text \<open>
  Claim C8. Removing a global merge variable whose uppercased name matches no stored entry
  raises \<open>ValueError\<close>, removing an image under a key that the images do not have raises
  \<open>KeyError\<close>, and in both cases the object is left as it was.
\<close>

theorem remove_missing_fails:
  "(upper n \<notin> fst ` set (global_merge_vars self) \<longrightarrow>
      remove_global_merge_var self n = (Some ValueError, self))
   \<and> (filename \<notin> fst ` set (images self) \<longrightarrow>
      remove_image self filename = (Some KeyError, self))"
proof (intro conjI impI)
  assume "upper n \<notin> fst ` set (global_merge_vars self)"
  then have "\<forall>x \<in> set (global_merge_vars self). \<not> fst x = upper n"
    by force
  then have "first_true (global_merge_vars self) (\<lambda>x. fst x = upper n) = PyFalse"
    by (rule first_true_none)
  then show "remove_global_merge_var self n = (Some ValueError, self)"
    by (simp add: remove_global_merge_var_def)
next
  assume "filename \<notin> fst ` set (images self)"
  then have "map_of (images self) filename = None"
    by (simp add: map_of_eq_None_iff)
  then show "remove_image self filename = (Some KeyError, self)"
    by (simp add: remove_image_def)
qed

theorem remove_missing_fails_witness:
  "remove_global_merge_var (clear\<lparr> global_merge_vars := [(''TEST'', ''value'')] \<rparr>) ''another-test''
     = (Some ValueError, clear\<lparr> global_merge_vars := [(''TEST'', ''value'')] \<rparr>)
   \<and> remove_image
       (clear\<lparr> images :=
          [(''image1'', \<lparr> image_content = ''/9j//w=='', image_type = Some ''image/jpeg'',
                          image_name = ''image1'' \<rparr>)] \<rparr>) ''image2''
     = (Some KeyError,
        clear\<lparr> images :=
          [(''image1'', \<lparr> image_content = ''/9j//w=='', image_type = Some ''image/jpeg'',
                          image_name = ''image1'' \<rparr>)] \<rparr>)"
  using remove_missing_fails [of "''another-test''"
      "clear\<lparr> global_merge_vars := [(''TEST'', ''value'')] \<rparr>" "''x''"]
    remove_missing_fails [of "''x''"
      "clear\<lparr> images :=
          [(''image1'', \<lparr> image_content = ''/9j//w=='', image_type = Some ''image/jpeg'',
                          image_name = ''image1'' \<rparr>)] \<rparr>" "''image2''"]
  by (simp add: upper_another_test clear_def)

subsection \<open>Regular expressions\<close>

text \<open>
  The two matching functions decide what they are meant to: \<open>re_match\<close> holds when a prefix
  of the string is matched in full, \<open>re_search\<close> when a substring is. For the email pattern
  a prefix is matched when the string begins with a non-empty part without \<^verbatim>\<open>@\<close>, then
  \<^verbatim>\<open>@\<close>, a second such part, a dot and a third such part.
\<close>

lemma nil_in_conc: "[] \<in> conc A B \<longleftrightarrow> [] \<in> A \<and> [] \<in> B"
  by (auto simp: conc_def)

lemma cons_in_conc:
  "a # w \<in> conc A B \<longleftrightarrow>
     ([] \<in> A \<and> a # w \<in> B) \<or> (\<exists>u v. w = u @ v \<and> a # u \<in> A \<and> v \<in> B)"
  by (auto simp: conc_def Cons_eq_append_conv)

lemma star_cons_split:
  "x \<in> star A \<Longrightarrow> x = a # w \<Longrightarrow> \<exists>u v. w = u @ v \<and> a # u \<in> A \<and> v \<in> star A"
proof (induction rule: star.induct)
  case star_empty
  then show ?case by simp
next
  case (star_more u v)
  show ?case
  proof (cases u)
    case Nil
    with star_more show ?thesis by simp
  next
    case (Cons b u')
    with star_more.prems star_more.hyps show ?thesis by auto
  qed
qed

lemma cons_in_star:
  "a # w \<in> star A \<longleftrightarrow> (\<exists>u v. w = u @ v \<and> a # u \<in> A \<and> v \<in> star A)"
proof
  assume "a # w \<in> star A"
  then show "\<exists>u v. w = u @ v \<and> a # u \<in> A \<and> v \<in> star A"
    by (rule star_cons_split) simp
next
  assume "\<exists>u v. w = u @ v \<and> a # u \<in> A \<and> v \<in> star A"
  then obtain u v where "w = u @ v" "a # u \<in> A" "v \<in> star A" by blast
  then show "a # w \<in> star A"
    using star_more [of "a # u" A v] by simp
qed

lemma nullable_lang: "nullable r \<longleftrightarrow> [] \<in> lang r"
  by (induction r) (auto simp: nil_in_conc star_empty)

lemma deriv_lang: "w \<in> lang (deriv a r) \<longleftrightarrow> a # w \<in> lang r"
proof (induction r arbitrary: w)
  case (Then r s)
  then show ?case
    by (auto simp: cons_in_conc nullable_lang) (auto simp: conc_def)
next
  case (Many r)
  then show ?case
    by (auto simp: cons_in_star) (auto simp: conc_def)
next
  case (Many1 r)
  then show ?case
    by (auto simp: cons_in_conc cons_in_star) (auto simp: conc_def)
qed auto

lemma re_match_lang: "re_match r s \<longleftrightarrow> (\<exists>p q. s = p @ q \<and> p \<in> lang r)"
proof (induction s arbitrary: r)
  case Nil
  then show ?case by (simp add: nullable_lang)
next
  case (Cons a s)
  have "(\<exists>p q. a # s = p @ q \<and> p \<in> lang r) \<longleftrightarrow>
      [] \<in> lang r \<or> (\<exists>p q. s = p @ q \<and> a # p \<in> lang r)"
    by (auto simp: Cons_eq_append_conv)
  with Cons show ?case by (simp add: nullable_lang deriv_lang)
qed

lemma re_search_lang: "re_search r s \<longleftrightarrow> (\<exists>x p q. s = x @ p @ q \<and> p \<in> lang r)"
proof (induction s)
  case Nil
  then show ?case by (simp add: nullable_lang)
next
  case (Cons a s)
  have "(\<exists>x p q. a # s = x @ p @ q \<and> p \<in> lang r) \<longleftrightarrow>
      (\<exists>p q. a # s = p @ q \<and> p \<in> lang r) \<or> (\<exists>x p q. s = x @ p @ q \<and> p \<in> lang r)"
    (is "?L \<longleftrightarrow> ?M \<or> ?R")
  proof
    assume ?L
    then obtain x p q where *: "a # s = x @ p @ q" "p \<in> lang r" by blast
    show "?M \<or> ?R"
    proof (cases x)
      case Nil
      with * show ?thesis by auto
    next
      case (Cons b x')
      with * have "s = x' @ p @ q" by simp
      with * show ?thesis by blast
    qed
  next
    assume "?M \<or> ?R"
    then show ?L
    proof
      assume ?M
      then obtain p q where "a # s = [] @ p @ q" "p \<in> lang r" by auto
      then show ?L by blast
    next
      assume ?R
      then obtain x p q where "a # s = (a # x) @ p @ q" "p \<in> lang r" by auto
      then show ?L by blast
    qed
  qed
  with Cons show ?case
    by (simp only: re_search.simps re_match_lang)
qed

lemma star_not_at: "star {[a] | a. a \<noteq> c} = {w. c \<notin> set w}"
proof (intro set_eqI iffI)
  fix w assume "w \<in> star {[a] | a. a \<noteq> c}"
  then show "w \<in> {w. c \<notin> set w}"
    by (induction rule: star.induct) auto
next
  fix w assume "w \<in> {w. c \<notin> set w}"
  then have "c \<notin> set w" by simp
  then show "w \<in> star {[a] | a. a \<noteq> c}"
  proof (induction w)
    case Nil
    show ?case by (rule star_empty)
  next
    case (Cons b w)
    then have "[b] \<in> {[a] | a. a \<noteq> c}" "w \<in> star {[a] | a. a \<noteq> c}" by auto
    from star_more [OF this] show ?case by simp
  qed
qed

lemma lang_not_at_plus: "lang (Many1 (NotLit c)) = {w. w \<noteq> [] \<and> c \<notin> set w}"
proof -
  have "conc {[a] | a. a \<noteq> c} {w. c \<notin> set w} = {w. w \<noteq> [] \<and> c \<notin> set w}"
  proof (intro set_eqI iffI)
    fix w assume "w \<in> conc {[a] | a. a \<noteq> c} {w. c \<notin> set w}"
    then show "w \<in> {w. w \<noteq> [] \<and> c \<notin> set w}" by (auto simp: conc_def)
  next
    fix w assume "w \<in> {w. w \<noteq> [] \<and> c \<notin> set w}"
    then obtain b w' where "w = [b] @ w'" "b \<noteq> c" "c \<notin> set w'" by (cases w) auto
    then show "w \<in> conc {[a] | a. a \<noteq> c} {w. c \<notin> set w}"
      unfolding conc_def by blast
  qed
  then show ?thesis by (simp add: star_not_at)
qed

lemma lang_email_pattern:
  "p \<in> lang email_pattern \<longleftrightarrow>
     (\<exists>a b c. p = a @ ''@'' @ b @ ''.'' @ c
        \<and> a \<noteq> [] \<and> CHR ''@'' \<notin> set a \<and> b \<noteq> [] \<and> CHR ''@'' \<notin> set b
        \<and> c \<noteq> [] \<and> CHR ''@'' \<notin> set c)"
  unfolding email_pattern_def lang.simps(6) lang_not_at_plus
  by (simp add: conc_def) blast

lemma re_match_email_pattern:
  "re_match email_pattern s \<longleftrightarrow>
     (\<exists>a b c q. s = a @ ''@'' @ b @ ''.'' @ c @ q
        \<and> a \<noteq> [] \<and> CHR ''@'' \<notin> set a \<and> b \<noteq> [] \<and> CHR ''@'' \<notin> set b
        \<and> c \<noteq> [] \<and> CHR ''@'' \<notin> set c)"
proof
  assume "re_match email_pattern s"
  then obtain p q a b c where "s = p @ q" "p = a @ ''@'' @ b @ ''.'' @ c"
    and parts: "a \<noteq> []" "CHR ''@'' \<notin> set a" "b \<noteq> []" "CHR ''@'' \<notin> set b"
      "c \<noteq> []" "CHR ''@'' \<notin> set c"
    unfolding re_match_lang lang_email_pattern by blast
  then have "s = a @ ''@'' @ b @ ''.'' @ c @ q" by simp
  with parts show "\<exists>a b c q. s = a @ ''@'' @ b @ ''.'' @ c @ q
        \<and> a \<noteq> [] \<and> CHR ''@'' \<notin> set a \<and> b \<noteq> [] \<and> CHR ''@'' \<notin> set b
        \<and> c \<noteq> [] \<and> CHR ''@'' \<notin> set c"
    by blast
next
  assume "\<exists>a b c q. s = a @ ''@'' @ b @ ''.'' @ c @ q
        \<and> a \<noteq> [] \<and> CHR ''@'' \<notin> set a \<and> b \<noteq> [] \<and> CHR ''@'' \<notin> set b
        \<and> c \<noteq> [] \<and> CHR ''@'' \<notin> set c"
  then obtain a b c q where s: "s = a @ ''@'' @ b @ ''.'' @ c @ q"
    and parts: "a \<noteq> []" "CHR ''@'' \<notin> set a" "b \<noteq> []" "CHR ''@'' \<notin> set b"
      "c \<noteq> []" "CHR ''@'' \<notin> set c"
    by blast
  from parts have "a @ ''@'' @ b @ ''.'' @ c \<in> lang email_pattern"
    unfolding lang_email_pattern by blast
  moreover from s have "s = (a @ ''@'' @ b @ ''.'' @ c) @ q" by simp
  ultimately show "re_match email_pattern s"
    unfolding re_match_lang by blast
qed

subsection \<open>The CSV reader\<close>

lemma merge_vars_of_row:
  assumes "i < length fs" "length vals = length fs" "fs ! i \<noteq> ''email''"
  shows "(upper (fs ! i), vals ! i) \<in>
    set (map (\<lambda>(key, v). (upper key, v)) (AList.delete ''email'' (AList.update ''email'' e (zip fs vals))))"
proof -
  from assms(1,2) have "(fs ! i, vals ! i) \<in> set (zip fs vals)"
    by (auto simp: in_set_zip)
  with assms(3) have "(fs ! i, vals ! i) \<in> set (AList.delete ''email'' (zip fs vals))"
    by (simp add: AList.delete_eq)
  then show ?thesis
    by (force simp: AList.delete_update_same)
qed

lemma row_to_recipient_carries:
  assumes "Row_make fs vals = Inr data" "row_to_recipient data ef = Inr r"
  shows "length vals = length fs \<and> map_of (zip fs vals) ef = Some (email r)
    \<and> (\<forall>i < length fs. fs ! i \<noteq> ''email'' \<longrightarrow> (upper (fs ! i), vals ! i) \<in> set (merge_vars r))"
proof -
  from assms(1) have len: "length vals = length fs" and data: "data = zip fs vals"
    by (auto simp: Row_make_def split: if_splits)
  from assms(2) obtain v where v: "map_of data ef = Some v"
    and call: "Recipient_call (AList.update ''email'' v data) = Inr r"
    by (auto simp: row_to_recipient_def getattr_def split: option.splits)
  from call have r: "r = Recipient v (AList.delete ''email'' (AList.update ''email'' v data))"
    by (auto simp: Recipient_call_def AList.update_conv' split: if_splits option.splits)
  have "email r = v" by (simp add: r Recipient_def)
  moreover have "(upper (fs ! i), vals ! i) \<in> set (merge_vars r)"
    if "i < length fs" "fs ! i \<noteq> ''email''" for i
    using merge_vars_of_row [OF that(1) len that(2), of v]
    by (simp add: r Recipient_def data)
  ultimately show ?thesis using len v data by simp
qed

lemma rows_to_recipients_carry:
  "rows_to_recipients fs ef reader = (rs, err) \<Longrightarrow>
   length rs \<le> length reader \<and> (err = None \<longrightarrow> length rs = length reader)
   \<and> list_all2 (carries fs ef) (take (length rs) reader) rs"
proof (induction reader arbitrary: rs err)
  case Nil
  then show ?case by simp
next
  case (Cons vals reader)
  show ?case
  proof (cases "Row_make fs vals")
    case (Inl e)
    with Cons.prems show ?thesis by auto
  next
    case data: (Inr data)
    show ?thesis
    proof (cases "row_to_recipient data ef")
      case (Inl e)
      with data Cons.prems show ?thesis by auto
    next
      case (Inr r)
      obtain rs' err' where rest: "rows_to_recipients fs ef reader = (rs', err')"
        by (cases "rows_to_recipients fs ef reader")
      with data Inr Cons.prems have rs: "rs = r # rs'" "err = err'"
        by (simp_all add: yield_def)
      from row_to_recipient_carries [OF data Inr] have "carries fs ef vals r"
        by (simp add: carries_def)
      with Cons.IH [OF rest] rs show ?thesis by simp
    qed
  qed
qed

lemma csvfile_to_recipients_carry:
  assumes "csvfile_to_recipients fs reader email_field = (rs, err)"
  shows "length rs \<le> length reader \<and> (err = None \<longrightarrow> length rs = length reader)
    \<and> (\<exists>ef. (\<forall>e. email_field = Some e \<longrightarrow> ef = e) \<and>
          list_all2 (carries fs ef) (take (length rs) reader) rs)"
proof (cases email_field)
  case (Some ef)
  with assms rows_to_recipients_carry [of fs ef reader rs err] show ?thesis
    by (auto simp: csvfile_to_recipients_def)
next
  case None
  show ?thesis
  proof (cases rs)
    case Nil
    with assms None show ?thesis
      by (auto simp: csvfile_to_recipients_def yield_def
          split: list.splits sum.splits)
  next
    case (Cons r rs')
    with assms None obtain vals rest data ef where reader: "reader = vals # rest"
      and data: "Row_make fs vals = Inr data"
      and r: "row_to_recipient data ef = Inr r"
      and rest: "rows_to_recipients fs ef rest = (rs', err)"
      by (auto simp: csvfile_to_recipients_def yield_def split: list.splits sum.splits)
    from row_to_recipient_carries [OF data r] have "carries fs ef vals r"
      by (simp add: carries_def)
    with rows_to_recipients_carry [OF rest] reader Cons None show ?thesis
      by auto
  qed
qed


lemma title_test_case: "title ''test case'' = ''Test Case''"
  by code_simp

lemma match_test_address: "re_match email_pattern ''test@example.com''"
  by code_simp



lemma keys_of_row: "length vals = length fs \<Longrightarrow> fst ` set (zip fs vals) = set fs"
  by (metis map_fst_zip set_map)

lemma guess_email_field_find:
  "set fs' \<subseteq> fst ` set data \<Longrightarrow>
   guess_email_field data fs' =
     (case List.find (\<lambda>f. re_match email_pattern (the (map_of data f))) fs' of
        None \<Rightarrow> Inl CouldNotGuessEmailField
      | Some f \<Rightarrow> Inr f)"
proof (induction fs')
  case Nil
  then show ?case by simp
next
  case (Cons f fs')
  then have "f \<in> fst ` set data" by simp
  then obtain v where "map_of data f = Some v"
    by (metis domD dom_map_of_conv_image_fst)
  with Cons show ?case by (simp add: getattr_def)
qed

lemma detect_first_match:
  assumes len: "length vals = length fs" and dist: "distinct fs"
    and i: "i < length fs" "re_match email_pattern (vals ! i)"
      "\<forall>j < i. \<not> re_match email_pattern (vals ! j)"
  shows "guess_email_field (zip fs vals) fs = Inr (fs ! i)"
proof -
  let ?P = "\<lambda>f. re_match email_pattern (the (map_of (zip fs vals) f))"
  have val: "the (map_of (zip fs vals) (fs ! k)) = vals ! k" if "k < length fs" for k
    using that len dist by (simp add: map_of_zip_nth)
  have "List.find ?P fs = Some (fs ! i)"
    unfolding find_Some_iff
  proof (intro exI [of _ i] conjI allI impI)
    show "i < length fs" by fact
    show "?P (fs ! i)" using i(1,2) by (simp add: val)
    show "fs ! i = fs ! i" ..
    fix j assume "j < i"
    with i show "\<not> ?P (fs ! j)" by (simp add: val)
  qed
  moreover have "set fs \<subseteq> fst ` set (zip fs vals)"
    using len by (simp add: keys_of_row)
  ultimately show ?thesis
    by (simp add: guess_email_field_find)
qed

lemma detect_no_match:
  assumes len: "length vals = length fs" and dist: "distinct fs"
    and none: "\<forall>i < length fs. \<not> re_match email_pattern (vals ! i)"
  shows "guess_email_field (zip fs vals) fs = Inl CouldNotGuessEmailField"
proof -
  let ?P = "\<lambda>f. re_match email_pattern (the (map_of (zip fs vals) f))"
  have "\<not> ?P f" if "f \<in> set fs" for f
  proof -
    from that obtain k where k: "k < length fs" "f = fs ! k"
      by (auto simp: in_set_conv_nth)
    with len dist have "the (map_of (zip fs vals) f) = vals ! k"
      by (simp add: map_of_zip_nth)
    with none k show ?thesis by simp
  qed
  then have "List.find ?P fs = None"
    by (simp add: find_None_iff)
  moreover have "set fs \<subseteq> fst ` set (zip fs vals)"
    using len by (simp add: keys_of_row)
  ultimately show ?thesis
    by (simp add: guess_email_field_find)
qed

lemma no_match_none: "\<not> re_match email_pattern ''none''"
  by code_simp

lemma no_match_test: "\<not> re_match email_pattern ''test''"
  by code_simp




text \<open>
  Claim C2, amended. Without an explicit email field, \<open>csvfile_to_recipients\<close> reads the
  first data row and scans its fields in header order for a value that the pattern
  \<^verbatim>\<open>[^@]+@[^@]+\.[^@]+\<close> matches at its beginning (\<^verbatim>\<open>re.match\<close>: anchored at the start of the
  value, not at its end). The first such field is the email field for every row: the
  result is that of the call with this field given explicitly, and the email of every
  recipient yielded is the value of this field in its row. If no field of the first row
  matches, the function fails with the could-not-guess error and yields no recipient.
\<close>

theorem email_field_detection:
  assumes "length vals = length fs" and "distinct fs"
  shows "((\<forall>i < length fs. \<not> re_match email_pattern (vals ! i)) \<longrightarrow>
            csvfile_to_recipients fs (vals # rest) None = ([], Some CouldNotGuessEmailField))
    \<and> (\<forall>i < length fs.
          re_match email_pattern (vals ! i) \<and> (\<forall>j < i. \<not> re_match email_pattern (vals ! j)) \<longrightarrow>
          csvfile_to_recipients fs (vals # rest) None =
            csvfile_to_recipients fs (vals # rest) (Some (fs ! i))
          \<and> (\<forall>k < length (fst (csvfile_to_recipients fs (vals # rest) None)).
                email (fst (csvfile_to_recipients fs (vals # rest) None) ! k) = (vals # rest) ! k ! i))"
proof (intro conjI allI impI)
  assume "\<forall>i < length fs. \<not> re_match email_pattern (vals ! i)"
  from detect_no_match [OF assms this]
  show "csvfile_to_recipients fs (vals # rest) None = ([], Some CouldNotGuessEmailField)"
    using assms(1) by (simp add: csvfile_to_recipients_def Row_make_def)
next
  fix i
  assume i: "i < length fs"
    and m: "re_match email_pattern (vals ! i) \<and> (\<forall>j < i. \<not> re_match email_pattern (vals ! j))"
  from detect_first_match [OF assms i] m
  have g: "guess_email_field (zip fs vals) fs = Inr (fs ! i)" by blast
  with assms(1)
  show eq: "csvfile_to_recipients fs (vals # rest) None =
      csvfile_to_recipients fs (vals # rest) (Some (fs ! i))"
    by (simp add: csvfile_to_recipients_def Row_make_def)
  fix k
  assume k: "k < length (fst (csvfile_to_recipients fs (vals # rest) None))"
  obtain rs err where res: "csvfile_to_recipients fs (vals # rest) (Some (fs ! i)) = (rs, err)"
    by (cases "csvfile_to_recipients fs (vals # rest) (Some (fs ! i))")
  from csvfile_to_recipients_carry [OF res]
  have len: "length rs \<le> length (vals # rest)"
    and all: "list_all2 (carries fs (fs ! i)) (take (length rs) (vals # rest)) rs"
    by auto
  from k eq res have k': "k < length rs" by simp
  with all len have "carries fs (fs ! i) ((vals # rest) ! k) (rs ! k)"
    by (auto simp: list_all2_conv_all_nth)
  then have "length ((vals # rest) ! k) = length fs"
    and "map_of (zip fs ((vals # rest) ! k)) (fs ! i) = Some (email (rs ! k))"
    by (simp_all add: carries_def)
  with i assms(2) have "email (rs ! k) = (vals # rest) ! k ! i"
    by (simp add: map_of_zip_nth)
  with eq res show "email (fst (csvfile_to_recipients fs (vals # rest) None) ! k) = (vals # rest) ! k ! i"
    by simp
qed

theorem email_field_detection_witness:
  "csvfile_to_recipients [''foobar'', ''first_name'', ''last_name'']
       [[''test@example.com'', ''test'', ''case'']] None =
     csvfile_to_recipients [''foobar'', ''first_name'', ''last_name'']
       [[''test@example.com'', ''test'', ''case'']] (Some ''foobar'')
   \<and> csvfile_to_recipients [''foobar'', ''first_name''] [[''none'', ''test'']] None =
       ([], Some CouldNotGuessEmailField)"
proof -
  have none: "\<forall>i < length [''foobar'', ''first_name''].
      \<not> re_match email_pattern ([''none'', ''test''] ! i)"
    by (auto simp: less_Suc_eq no_match_none no_match_test simp del: re_match.simps)
  have first: "re_match email_pattern ([''test@example.com'', ''test'', ''case''] ! 0)
      \<and> (\<forall>j < 0. \<not> re_match email_pattern ([''test@example.com'', ''test'', ''case''] ! j))"
    by (simp add: match_test_address del: re_match.simps)
  from email_field_detection
      [of "[''none'', ''test'']" "[''foobar'', ''first_name'']" "[]"] none
  have a: "csvfile_to_recipients [''foobar'', ''first_name''] [[''none'', ''test'']] None =
      ([], Some CouldNotGuessEmailField)"
    by simp
  from email_field_detection
      [of "[''test@example.com'', ''test'', ''case'']"
          "[''foobar'', ''first_name'', ''last_name'']" "[]"] first
  have b: "csvfile_to_recipients [''foobar'', ''first_name'', ''last_name'']
       [[''test@example.com'', ''test'', ''case'']] None =
     csvfile_to_recipients [''foobar'', ''first_name'', ''last_name'']
       [[''test@example.com'', ''test'', ''case'']] (Some ''foobar'')"
    by (auto simp del: re_match.simps)
  from a b show ?thesis by simp
qed

text \<open>
  Claim C2 as stated fails where a value contains a match that does not start at its
  beginning: \<^verbatim>\<open>@bob bob@example.com\<close> contains \<^verbatim>\<open>bob@example.com\<close>, but \<^verbatim>\<open>re.match\<close> rejects it
  and the function raises.
\<close>

theorem substring_match_counterexample:
  "re_search email_pattern ''@bob bob@example.com''
   \<and> \<not> re_match email_pattern ''@bob bob@example.com''
   \<and> csvfile_to_recipients [''contact'', ''first_name''] [[''@bob bob@example.com'', ''bob'']] None =
       ([], Some CouldNotGuessEmailField)"
  by code_simp

end
